theory Spec2Isabelle
  imports Main "HOL-Library.AList" "HOL-Library.Sublist"
begin

section \<open>Errors and Python helpers\<close>

text \<open>
  Every exception the two modules can raise is a value of \<open>error\<close>; a function that can
  raise returns \<open>error + 'a\<close> with \<open>Inl\<close> for the exception.
\<close>

datatype error =
    NotImplementedError
  | SocketError
  | UnpackError
  | IndexError
  | ValueError
  | AssertionError
  | KeyError
  | AttributeError
  | TakingTooLong

text \<open>
  \<open>str.isalnum\<close> of a one-character Python 2 byte string, in the C locale the interpreter
  starts in: the ASCII digits and letters.
\<close>

definition isalnum :: "char \<Rightarrow> bool" where
  "isalnum e = (let n = (of_char e :: nat) in
     (48 \<le> n \<and> n \<le> 57) \<or> (65 \<le> n \<and> n \<le> 90) \<or> (97 \<le> n \<and> n \<le> 122))"

text \<open>\<open>s.split(sep)\<close> with a one-character separator: never empty, \<open>''.split(':') == ['']\<close>.\<close>

fun split :: "char \<Rightarrow> string \<Rightarrow> string list" where
  "split sep [] = [[]]"
| "split sep (c # cs) =
     (if c = sep then [] # split sep cs
      else (case split sep cs of
              [] \<Rightarrow> [[c]]
            | w # ws \<Rightarrow> (c # w) # ws))"

section \<open>dynamic.py\<close>

text \<open>
  Modelled from the spec: the class \<open>HttpConnectProxy\<close> of module \<open>http_connect\<close>, which
  is not among the sources. The spec has the resolver "construct and return the concrete proxy
  bound to host:port"; the liveness flag is the one of the proxy capability contract, false
  on a new proxy. \<open>resolve_proxy\<close> passes the port as the text field it parsed.
\<close>

record http_connect_proxy =
  hcp_host :: string
  hcp_port :: string
  hcp_died :: bool

definition HttpConnectProxy :: "string \<Rightarrow> string \<Rightarrow> http_connect_proxy" where
  "HttpConnectProxy ip port = \<lparr>hcp_host = ip, hcp_port = port, hcp_died = False\<rparr>"

text \<open>\<open>class DynamicProxy\<close>: \<open>delegated_to\<close> is \<open>None\<close> or the bound proxy (an object, so truthy).\<close>

record dynamic_proxy =
  proxy_dns_record :: string
  delegated_to :: "http_connect_proxy option"

definition DynamicProxy :: "string \<Rightarrow> dynamic_proxy" where
  "DynamicProxy record = \<lparr>proxy_dns_record = record, delegated_to = None\<rparr>"

text \<open>
  \<open>DynamicProxy.forward\<close>. The delegate's own \<open>forward\<close> belongs to \<open>http_connect\<close> and is
  a parameter; it works on a client of any type \<open>'c\<close>.
\<close>

definition forward ::
  "(http_connect_proxy \<Rightarrow> 'c \<Rightarrow> error + 'c) \<Rightarrow> dynamic_proxy \<Rightarrow> 'c \<Rightarrow> error + 'c" where
  "forward delegate_forward self client =
     (case delegated_to self of
        Some d \<Rightarrow> delegate_forward d client
      | None \<Rightarrow> Inl NotImplementedError)"

text \<open>The \<open>died\<close> property: getter and setter.\<close>

definition died_get :: "dynamic_proxy \<Rightarrow> bool" where
  "died_get self =
     (case delegated_to self of
        Some d \<Rightarrow> hcp_died d
      | None \<Rightarrow> False)"

definition died_set :: "dynamic_proxy \<Rightarrow> bool \<Rightarrow> dynamic_proxy" where
  "died_set self v =
     (case delegated_to self of
        Some d \<Rightarrow> self\<lparr>delegated_to := Some (d\<lparr>hcp_died := v\<rparr>)\<rparr>
      | None \<Rightarrow> self)"

definition is_protocol_supported ::
  "(http_connect_proxy \<Rightarrow> string \<Rightarrow> bool) \<Rightarrow> dynamic_proxy \<Rightarrow> string \<Rightarrow> bool" where
  "is_protocol_supported delegate_supports self protocol =
     (case delegated_to self of
        Some d \<Rightarrow> delegate_supports d protocol
      | None \<Rightarrow> False)"

text \<open>
  What the DNS exchange of \<open>resolve_proxy\<close> (lines 64 to 69) can give: the socket fails or
  the 3 s receive times out; the packet does not parse; or it parses, with the \<open>rdata\<close> of
  each answer record in order.
\<close>

datatype dns_reply = DnsTimeout | DnsMalformed | DnsAnswers "string list"

definition query_txt :: "dns_reply \<Rightarrow> error + string" where
  "query_txt reply =
     (case reply of
        DnsTimeout \<Rightarrow> Inl SocketError
      | DnsMalformed \<Rightarrow> Inl UnpackError
      | DnsAnswers [] \<Rightarrow> Inl IndexError
      | DnsAnswers (an0 # _) \<Rightarrow> Inr an0)"

text \<open>Line 70: the characters kept from the answer.\<close>

definition sanitize :: "string \<Rightarrow> string" where
  "sanitize connection_info =
     filter (\<lambda>e. isalnum e \<or> e \<in> set [CHR '':'', CHR ''.'', CHR ''-'']) connection_info"

text \<open>Line 71: unpacking into five names raises \<open>ValueError\<close> on any other count.\<close>

definition unpack5 :: "string list \<Rightarrow> error + (string \<times> string \<times> string \<times> string \<times> string)" where
  "unpack5 parts =
     (case parts of
        [proxy_type, ip, port, username, password] \<Rightarrow> Inr (proxy_type, ip, port, username, password)
      | _ \<Rightarrow> Inl ValueError)"

text \<open>The body of the \<open>try\<close> block of \<open>resolve_proxy\<close> (logging left out).\<close>

definition resolve_body :: "dns_reply \<Rightarrow> dynamic_proxy \<Rightarrow> error + dynamic_proxy" where
  "resolve_body reply proxy =
     (case query_txt reply of
        Inl e \<Rightarrow> Inl e
      | Inr connection_info \<Rightarrow>
          (case unpack5 (split CHR '':'' (sanitize connection_info)) of
             Inl e \<Rightarrow> Inl e
           | Inr (proxy_type, ip, port, username, password) \<Rightarrow>
               if ''http-connect'' = proxy_type
               then Inr (proxy\<lparr>delegated_to := Some (HttpConnectProxy ip port)\<rparr>)
               else Inl AssertionError))"

text \<open>\<open>resolve_proxy\<close>: the bare \<open>except:\<close> catches whatever the body raised.\<close>

definition resolve_proxy :: "dns_reply \<Rightarrow> dynamic_proxy \<Rightarrow> error + dynamic_proxy" where
  "resolve_proxy reply proxy =
     (case resolve_body reply proxy of
        Inr proxy' \<Rightarrow> Inr proxy'
      | Inl e \<Rightarrow> Inr (proxy\<lparr>delegated_to := None\<rparr>))"

text \<open>The character class \<open>[A-Za-z0-9:.-]\<close> as the specification writes it.\<close>

definition spec_kept_chars :: "char set" where
  "spec_kept_chars =
     set ''ABCDEFGHIJKLMNOPQRSTUVWXYZabcdefghijklmnopqrstuvwxyz0123456789:.-''"

section \<open>Python helpers used by spdy\_relay.py\<close>

text \<open>A Python \<open>dict\<close> with text keys: an association list with distinct keys. Assignment is
  \<open>AList.update\<close>, lookup is \<open>map_of\<close>, \<open>pop\<close> is lookup and \<open>AList.delete\<close>. Iteration
  follows the list; Python 2 fixes no iteration order, and no property below depends on it.\<close>

type_synonym dict = "(string \<times> string) list"

text \<open>\<open>dict(pairs)\<close>: a later pair replaces an earlier one with the same key.\<close>

definition dict :: "(string \<times> string) list \<Rightarrow> dict" where
  "dict pairs = foldl (\<lambda>d (k, v). AList.update k v d) [] pairs"

text \<open>\<open>str.lower\<close> on a byte string: the ASCII capitals move down, all else stays.\<close>

definition lower_char :: "char \<Rightarrow> char" where
  "lower_char c =
     (case map_of (zip ''ABCDEFGHIJKLMNOPQRSTUVWXYZ'' ''abcdefghijklmnopqrstuvwxyz'') c of
        Some l \<Rightarrow> l
      | None \<Rightarrow> c)"

definition lower :: "string \<Rightarrow> string" where
  "lower s = map lower_char s"

text \<open>\<open>str.strip()\<close>: white space (space, tab, line feed, vertical tab, form feed, carriage
  return) goes from both ends.\<close>

definition isspace :: "char \<Rightarrow> bool" where
  "isspace c = (let n = (of_char c :: nat) in n = 32 \<or> (9 \<le> n \<and> n \<le> 13))"

definition strip :: "string \<Rightarrow> string" where
  "strip s = rev (dropWhile isspace (rev (dropWhile isspace s)))"

text \<open>\<open>str.startswith\<close>.\<close>

definition startswith :: "string \<Rightarrow> string \<Rightarrow> bool" where
  "startswith s p = (take (length p) s = p)"

text \<open>\<open>int(s)\<close> of a Python 2 byte string: white space around, one optional sign, then decimal
  digits and nothing else; \<open>None\<close> stands for the \<open>ValueError\<close>.\<close>

definition isdigit :: "char \<Rightarrow> bool" where
  "isdigit c = (let n = (of_char c :: nat) in 48 \<le> n \<and> n \<le> 57)"

definition digits_value :: "string \<Rightarrow> int" where
  "digits_value ds = foldl (\<lambda>acc c. 10 * acc + int ((of_char c :: nat) - 48)) 0 ds"

definition py_int :: "string \<Rightarrow> int option" where
  "py_int s =
     (let t = strip s;
          neg = (t \<noteq> [] \<and> hd t = CHR ''-'');
          ds = (if t \<noteq> [] \<and> (hd t = CHR ''-'' \<or> hd t = CHR ''+'') then tl t else t)
      in if ds \<noteq> [] \<and> list_all isdigit ds
         then Some (if neg then - digits_value ds else digits_value ds)
         else None)"

text \<open>\<open>sys.maxint\<close> of a 64-bit build of Python 2.\<close>

definition sys_maxint :: int where
  "sys_maxint = 9223372036854775807"

text \<open>\<open>base64.b64encode\<close> of the standard library: three bytes give four characters of the
  alphabet, a shorter last group is padded with \<open>=\<close>.\<close>

definition b64_alphabet :: string where
  "b64_alphabet = ''ABCDEFGHIJKLMNOPQRSTUVWXYZabcdefghijklmnopqrstuvwxyz0123456789+/''"

definition b64_char :: "nat \<Rightarrow> char" where
  "b64_char n = b64_alphabet ! (n mod 64)"

fun b64_groups :: "nat list \<Rightarrow> string" where
  "b64_groups [] = []"
| "b64_groups [a] =
     [b64_char (a div 4), b64_char ((a mod 4) * 16), CHR ''='', CHR ''='']"
| "b64_groups [a, b] =
     [b64_char (a div 4), b64_char ((a mod 4) * 16 + b div 16), b64_char ((b mod 16) * 4),
      CHR ''='']"
| "b64_groups (a # b # c # rest) =
     [b64_char (a div 4), b64_char ((a mod 4) * 16 + b div 16),
      b64_char ((b mod 16) * 4 + c div 64), b64_char (c mod 64)] @ b64_groups rest"

definition b64encode :: "string \<Rightarrow> string" where
  "b64encode s = b64_groups (map of_char s)"

definition CRLF :: string where
  "CRLF = [CHR 0x0D, CHR 0x0A]"

section \<open>spdy\_relay.py: the tunnel client\<close>

text \<open>
  The frames of the \<open>spdy\<close> library as this module reads them. \<open>Settings\<close> carries its
  \<open>id_value_pairs\<close>, each an id with a pair of flags and value; \<open>DataFrame\<close> a stream id and
  its payload; \<open>SynStream\<close> and \<open>SynReply\<close> a stream id and headers; \<open>WindowUpdate\<close> a stream
  id and a size. \<open>RstStream\<close> stands for the other frames with a \<open>stream_id\<close>, \<open>Ping\<close> and
  \<open>Goaway\<close> for those without.
\<close>

datatype frame =
    Settings "(nat \<times> nat \<times> int) list"
  | DataFrame nat string
  | SynStream nat dict
  | SynReply nat "(string \<times> string) list"
  | WindowUpdate nat int
  | RstStream nat nat
  | Ping nat
  | Goaway nat

text \<open>\<open>hasattr(frame, 'stream_id')\<close> and the attribute.\<close>

fun stream_id :: "frame \<Rightarrow> nat option" where
  "stream_id (Settings _) = None"
| "stream_id (DataFrame sid _) = Some sid"
| "stream_id (SynStream sid _) = Some sid"
| "stream_id (SynReply sid _) = Some sid"
| "stream_id (WindowUpdate sid _) = Some sid"
| "stream_id (RstStream sid _) = Some sid"
| "stream_id (Ping _) = None"
| "stream_id (Goaway _) = None"

text \<open>\<open>spdy.frames.INITIAL_WINDOW_SIZE\<close>, the settings id of SPDY/3.\<close>

definition INITIAL_WINDOW_SIZE :: nat where
  "INITIAL_WINDOW_SIZE = 7"

text \<open>
  \<open>class SpdyClient\<close>. \<open>streams\<close> maps a stream id to its queue, oldest frame first.
  \<open>next_stream_id\<close> is the counter of the library's context (odd ids on the client side,
  two apart). \<open>sent\<close> lists the frames written to the channel, in order, and \<open>tls_open\<close>
  says whether a write to the channel succeeds.
\<close>

record spdy_client =
  window_size :: int
  current_window :: int
  streams :: "nat \<rightharpoonup> frame list"
  next_stream_id :: nat
  sent :: "frame list"
  tls_open :: bool

text \<open>
  What \<open>SpdyClient.__init__\<close> meets: the TCP connection fails, the TLS handshake fails, or
  the handshake ends with a negotiated next protocol (or none).
\<close>

datatype handshake = TcpFailed | TlsFailed | Negotiated "string option"

definition SpdyClient :: "handshake \<Rightarrow> error + spdy_client" where
  "SpdyClient h =
     (case h of
        TcpFailed \<Rightarrow> Inl SocketError
      | TlsFailed \<Rightarrow> Inl SocketError
      | Negotiated next_proto \<Rightarrow>
          if Some ''spdy/3'' = next_proto
          then Inr \<lparr>window_size = 65536, current_window = 0, streams = Map.empty,
                    next_stream_id = 1, sent = [], tls_open = True\<rparr>
          else Inl AssertionError)"

definition send :: "spdy_client \<Rightarrow> frame \<Rightarrow> error + spdy_client" where
  "send self frame =
     (if tls_open self then Inr (self\<lparr>sent := sent self @ [frame]\<rparr>) else Inl SocketError)"

definition open_stream :: "spdy_client \<Rightarrow> dict \<Rightarrow> error + (spdy_client \<times> nat)" where
  "open_stream self hdrs =
     (let sid = next_stream_id self;
          self1 = self\<lparr>next_stream_id := sid + 2, streams := (streams self)(sid \<mapsto> [])\<rparr>
      in case send self1 (SynStream sid hdrs) of
           Inl e \<Rightarrow> Inl e
         | Inr self2 \<Rightarrow> Inr (self2, sid))"

text \<open>
  One turn of the \<open>while\<close> loop of \<open>consume_frames\<close> (lines 55 to 65), for the frame that
  \<open>get_frame\<close> returned. The loop that calls it catches the exception and keeps the client,
  so the result has the client as the exception left it, and the exception if one was raised.
  The division is Python 2's on integers: it rounds down.
\<close>

definition consume_frame :: "spdy_client \<Rightarrow> frame \<Rightarrow> spdy_client \<times> error option" where
  "consume_frame self frame =
     (let self1 =
            (case frame of
               Settings id_value_pairs \<Rightarrow>
                 (case map_of (rev id_value_pairs) INITIAL_WINDOW_SIZE of
                    Some window_size_settings \<Rightarrow> self\<lparr>window_size := snd window_size_settings\<rparr>
                  | None \<Rightarrow> self)
             | _ \<Rightarrow> self);
          (self2, raised) =
            (case frame of
               DataFrame sid data \<Rightarrow>
                 (let s = self1\<lparr>current_window := current_window self1 + int (length data)\<rparr>
                  in if current_window s \<ge> window_size s div 2
                     then (case send s (WindowUpdate sid (window_size s)) of
                             Inr s' \<Rightarrow> (s', None)
                           | Inl e \<Rightarrow> (s, Some e))
                     else (s, None))
             | _ \<Rightarrow> (self1, None))
      in case raised of
           Some e \<Rightarrow> (self2, Some e)
         | None \<Rightarrow>
             (case stream_id frame of
                None \<Rightarrow> (self2, None)
              | Some sid \<Rightarrow>
                  (case streams self2 sid of
                     None \<Rightarrow> (self2, Some KeyError)
                   | Some queue \<Rightarrow>
                       (self2\<lparr>streams := (streams self2)(sid \<mapsto> queue @ [frame])\<rparr>, None))))"

text \<open>\<open>consume_frames\<close>, over the frames the decoder holds; it returns when there is none left.\<close>

fun consume_frames :: "spdy_client \<Rightarrow> frame list \<Rightarrow> spdy_client \<times> error option" where
  "consume_frames self [] = (self, None)"
| "consume_frames self (frame # frames) =
     (case consume_frame self frame of
        (self', Some e) \<Rightarrow> (self', Some e)
      | (self', None) \<Rightarrow> consume_frames self' frames)"

text \<open>
  \<open>loop\<close>. Each element of \<open>reads\<close> is the frames decoded from one successful read of the
  channel; after the last one the read raises. The \<open>try\<close> is outside the \<open>while\<close>, so the
  first exception ends the loop; the result is the client and the exception that was logged.
\<close>

fun loop :: "spdy_client \<Rightarrow> frame list list \<Rightarrow> spdy_client \<times> error" where
  "loop self [] = (self, SocketError)"
| "loop self (frames # reads) =
     (case consume_frames self frames of
        (self', Some e) \<Rightarrow> (self', e)
      | (self', None) \<Rightarrow> loop self' reads)"

definition close :: "spdy_client \<Rightarrow> spdy_client" where
  "close self = self\<lparr>tls_open := False\<rparr>"

section \<open>spdy\_relay.py: the relay proxy\<close>

text \<open>
  The client connection handed to \<open>do_forward\<close>, an object of the caller: the parsed request
  (\<open>method\<close>, here \<open>request_method\<close>, \<open>path\<close>, \<open>host\<close>, \<open>headers\<close>), the \<open>forward_started\<close> flag, the payloads
  passed to \<open>downstream_sock.sendall\<close> in order, and the reasons passed to \<open>fall_back\<close> in
  order. Writes to the downstream socket are taken to succeed.
\<close>

record client =
  request_method :: string
  path :: string
  host :: string
  headers :: dict
  forward_started :: bool
  downstream_sock :: "string list"
  fall_back_reasons :: "string list"

definition sendall :: "client \<Rightarrow> string \<Rightarrow> client" where
  "sendall c payload = c\<lparr>downstream_sock := downstream_sock c @ [payload]\<rparr>"

text \<open>
  Modelled from the spec: \<open>client.fall_back\<close>, a method of the caller's client object that is
  not among the sources. The spec calls it the "defined fallback trigger", "not an error"; the
  model records the call and returns.
\<close>

definition fall_back :: "client \<Rightarrow> string \<Rightarrow> client" where
  "fall_back c reason = c\<lparr>fall_back_reasons := fall_back_reasons c @ [reason]\<rparr>"

text \<open>\<open>class SpdyRelayProxy\<close>; \<open>died\<close> is the flag of the \<open>Proxy\<close> base class.\<close>

record spdy_relay_proxy =
  proxy_ip :: string
  proxy_port :: nat
  username :: "string option"
  password :: "string option"
  spdy_client :: "spdy_client option"
  died :: bool
  flags :: "string set"

text \<open>The constructor, given the address \<open>socket.gethostbyname\<close> resolved.\<close>

definition SpdyRelayProxy ::
  "string \<Rightarrow> nat \<Rightarrow> string option \<Rightarrow> string option \<Rightarrow> bool \<Rightarrow> spdy_relay_proxy" where
  "SpdyRelayProxy ip port user pass is_public =
     \<lparr>proxy_ip = ip, proxy_port = port, username = user, password = pass,
      spdy_client = None, died = False,
      flags = (if is_public then {''PUBLIC''} else {})\<rparr>"

text \<open>\<open>SpdyRelayProxy.close\<close>; \<open>SpdyClient.close\<close> swallows its own errors.\<close>

definition relay_close :: "spdy_relay_proxy \<Rightarrow> spdy_relay_proxy" where
  "relay_close self =
     (case spdy_client self of
        Some c \<Rightarrow> self\<lparr>spdy_client := Some (close c)\<rparr>
      | None \<Rightarrow> self)"

text \<open>
  The \<open>try\<close> block of \<open>connect\<close>: the proxy as the block left it, and the exception if one
  was raised. The dispatch loop that \<open>gevent.spawn\<close> starts runs beside the caller and is
  not part of the result.
\<close>

definition connect_body :: "handshake \<Rightarrow> spdy_relay_proxy \<Rightarrow> spdy_relay_proxy \<times> error option" where
  "connect_body h self =
     (let self1 = relay_close self
      in case SpdyClient h of
           Inl e \<Rightarrow> (self1, Some e)
         | Inr c \<Rightarrow> (self1\<lparr>spdy_client := Some c\<rparr>, None))"

definition connect :: "handshake \<Rightarrow> spdy_relay_proxy \<Rightarrow> error + spdy_relay_proxy" where
  "connect h self =
     (case connect_body h self of
        (self', None) \<Rightarrow> Inr self'
      | (self', Some e) \<Rightarrow> Inr (self'\<lparr>died := True\<rparr>))"

text \<open>
  \<open>refresh\<close>: \<open>net i\<close> is what the \<open>i\<close>-th connection attempt of the call meets. An exception
  of a \<open>connect\<close> would leave the \<open>for\<close> loop and \<open>refresh\<close>.
\<close>

fun refresh_from ::
  "nat \<Rightarrow> (nat \<Rightarrow> handshake) \<Rightarrow> spdy_relay_proxy list \<Rightarrow> error + spdy_relay_proxy list" where
  "refresh_from i net [] = Inr []"
| "refresh_from i net (proxy # proxies) =
     (case connect (net i) proxy of
        Inl e \<Rightarrow> Inl e
      | Inr proxy' \<Rightarrow>
          (case refresh_from (Suc i) net proxies of
             Inl e \<Rightarrow> Inl e
           | Inr proxies' \<Rightarrow> Inr (proxy' # proxies')))"

definition refresh ::
  "(nat \<Rightarrow> handshake) \<Rightarrow> spdy_relay_proxy list \<Rightarrow> error + (spdy_relay_proxy list \<times> bool)" where
  "refresh net proxies =
     (case refresh_from 0 net proxies of
        Inl e \<Rightarrow> Inl e
      | Inr proxies' \<Rightarrow> Inr (proxies', True))"

definition relay_is_protocol_supported :: "spdy_relay_proxy \<Rightarrow> string \<Rightarrow> bool" where
  "relay_is_protocol_supported self protocol = (protocol = ''HTTP'')"

text \<open>Lines 113 to 124 of \<open>do_forward\<close>: the headers of the stream it opens.\<close>

definition do_forward_headers :: "spdy_relay_proxy \<Rightarrow> client \<Rightarrow> dict" where
  "do_forward_headers self c =
     (let h0 = [('':method'', request_method c),
                ('':scheme'', ''http''),
                ('':path'', path c),
                ('':version'', ''HTTP/1.1''),
                ('':host'', host c)];
          h1 = (case (username self, password self) of
                  (Some u, Some p) \<Rightarrow>
                    if u \<noteq> [] \<and> p \<noteq> []
                    then AList.update ''proxy-authorization''
                           (''Basic '' @ strip (b64encode (u @ '':'' @ p)) @ CRLF) h0
                    else h0
                | _ \<Rightarrow> h0)
      in foldl (\<lambda>h (k, v). AList.update (lower k) v h) h1 (headers c))"

text \<open>
  \<open>on_syn_reply_frame\<close>, given \<open>frame.headers\<close>: the client after the writes and the number
  of bytes still to come. \<open>pop\<close> of a missing key raises \<open>KeyError\<close>, \<open>int\<close> of a value that
  is no number \<open>ValueError\<close>. An exception of \<open>do_forward\<close> goes to its caller, so it carries
  no state here.
\<close>

definition on_syn_reply_frame :: "client \<Rightarrow> (string \<times> string) list \<Rightarrow> error + (client \<times> int)" where
  "on_syn_reply_frame c frame_headers =
     (let hdrs = dict frame_headers
      in case map_of hdrs '':version'' of
           None \<Rightarrow> Inl KeyError
         | Some http_version \<Rightarrow>
             (let hdrs1 = AList.delete '':version'' hdrs
              in case map_of hdrs1 '':status'' of
                   None \<Rightarrow> Inl KeyError
                 | Some status \<Rightarrow>
                     (let hdrs2 = AList.delete '':status'' hdrs1;
                          c1 = c\<lparr>forward_started := True\<rparr>;
                          c2 = sendall c1 (http_version @ '' '' @ status @ CRLF);
                          c3 = foldl (\<lambda>c' (k, v). sendall c' (k @ '': '' @ v @ CRLF)) c2 hdrs2;
                          c4 = sendall c3 CRLF
                      in if startswith status ''304''
                         then Inr (c4, 0)
                         else (case map_of hdrs2 ''content-length'' of
                                 None \<Rightarrow> Inr (c4, sys_maxint)
                               | Some v \<Rightarrow>
                                   (case py_int v of
                                      None \<Rightarrow> Inl ValueError
                                    | Some n \<Rightarrow> Inr (c4, n))))))"

definition on_data_frame :: "client \<Rightarrow> string \<Rightarrow> client \<times> int" where
  "on_data_frame c data = (sendall c data, int (length data))"

text \<open>How a call of \<open>do_forward\<close> that did not raise ended.\<close>

datatype outcome = Completed | FellBack

text \<open>
  The \<open>while remaining_bytes > 0\<close> loop of \<open>do_forward\<close> (lines 128 to 142). The list holds
  the frames that \<open>stream.get(timeout=10)\<close> returns, in order; when it is used up the queue
  stays empty for the ten seconds and \<open>get\<close> raises \<open>Empty\<close>.
\<close>

fun forward_frames :: "int \<Rightarrow> client \<Rightarrow> frame list \<Rightarrow> error + (client \<times> outcome)" where
  "forward_frames remaining_bytes c [] =
     (if remaining_bytes > 0
      then (if forward_started c
            then Inl TakingTooLong
            else Inr (fall_back c ''no response from proxy'', FellBack))
      else Inr (c, Completed))"
| "forward_frames remaining_bytes c (frame # frames) =
     (if remaining_bytes > 0
      then (case frame of
              SynReply sid frame_headers \<Rightarrow>
                (case on_syn_reply_frame c frame_headers of
                   Inl e \<Rightarrow> Inl e
                 | Inr (c', n) \<Rightarrow> forward_frames n c' frames)
            | DataFrame sid data \<Rightarrow>
                (case on_data_frame (c\<lparr>forward_started := True\<rparr>) data of
                   (c', n) \<Rightarrow> forward_frames (remaining_bytes - n) c' frames)
            | _ \<Rightarrow> forward_frames remaining_bytes c frames)
      else Inr (c, Completed))"

text \<open>
  \<open>do_forward\<close>. \<open>recv_and_parse_request\<close> belongs to module \<open>http_try\<close> and is a parameter:
  it fills the request fields of the client or raises. \<open>arrivals\<close> are the frames the
  dispatch loop puts on the queue of the new stream while \<open>do_forward\<close> waits.
\<close>

definition do_forward ::
  "(client \<Rightarrow> error + client) \<Rightarrow> spdy_relay_proxy \<Rightarrow> client \<Rightarrow> frame list
     \<Rightarrow> error + (spdy_relay_proxy \<times> client \<times> outcome)" where
  "do_forward recv_and_parse_request self c arrivals =
     (case recv_and_parse_request c of
        Inl e \<Rightarrow> Inl e
      | Inr c1 \<Rightarrow>
          (case spdy_client self of
             None \<Rightarrow> Inl AttributeError
           | Some sc \<Rightarrow>
               (case open_stream sc (do_forward_headers self c1) of
                  Inl e \<Rightarrow> Inl e
                | Inr (sc', sid) \<Rightarrow>
                    (case streams sc' sid of
                       None \<Rightarrow> Inl KeyError
                     | Some stream \<Rightarrow>
                         (case forward_frames sys_maxint c1 arrivals of
                            Inl e \<Rightarrow> Inl e
                          | Inr (c2, out) \<Rightarrow> Inr (self\<lparr>spdy_client := Some sc'\<rparr>, c2, out))))))"

section \<open>Vocabulary of the properties\<close>

text \<open>A frame whose handling marks forwarding as started: a reply-header or a data frame.\<close>

fun starts_forwarding :: "frame \<Rightarrow> bool" where
  "starts_forwarding (SynReply _ _) = True"
| "starts_forwarding (DataFrame _ _) = True"
| "starts_forwarding _ = False"

fun is_reply :: "frame \<Rightarrow> bool" where
  "is_reply (SynReply _ _) = True"
| "is_reply _ = False"

text \<open>The payload bytes of the data frames of a list.\<close>

fun data_total :: "frame list \<Rightarrow> int" where
  "data_total [] = 0"
| "data_total (DataFrame _ data # fs) = int (length data) + data_total fs"
| "data_total (_ # fs) = data_total fs"

section \<open>Properties of dynamic.py\<close>

lemma spec_kept_codes:
  "(n :: nat) \<in> of_char ` spec_kept_chars \<longleftrightarrow>
     ((48 \<le> n \<and> n \<le> 58) \<or> (65 \<le> n \<and> n \<le> 90) \<or> (97 \<le> n \<and> n \<le> 122)
      \<or> n = 45 \<or> n = 46)"
  unfolding spec_kept_chars_def
  apply simp
  apply arith
  done

lemma kept_iff_spec:
  "(isalnum e \<or> e \<in> set [CHR '':'', CHR ''.'', CHR ''-'']) = (e \<in> spec_kept_chars)"
proof -
  have inj: "\<And>S. e \<in> S \<longleftrightarrow> (of_char e :: nat) \<in> of_char ` S"
    by (auto simp: of_char_eq_iff)
  have punct: "e \<in> set [CHR '':'', CHR ''.'', CHR ''-'']
      \<longleftrightarrow> (of_char e :: nat) = 58 \<or> (of_char e :: nat) = 46 \<or> (of_char e :: nat) = 45"
  proof -
    have "(of_char e :: nat) \<in> of_char ` set [CHR '':'', CHR ''.'', CHR ''-'']
      \<longleftrightarrow> (of_char e :: nat) = 58 \<or> (of_char e :: nat) = 46 \<or> (of_char e :: nat) = 45"
      by (simp del: of_char_eq_iff)
    then show ?thesis
      using inj [of "set [CHR '':'', CHR ''.'', CHR ''-'']"] by blast
  qed
  have "(e \<in> spec_kept_chars) = ((of_char e :: nat) \<in> of_char ` spec_kept_chars)"
    by (rule inj)
  also have "\<dots> = (isalnum e \<or> e \<in> set [CHR '':'', CHR ''.'', CHR ''-''])"
    unfolding spec_kept_codes isalnum_def Let_def punct
    by arith
  finally show ?thesis by simp
qed

text \<open>
  C8 (as amended). Sanitization keeps exactly the characters of \<open>[A-Za-z0-9:.-]\<close>, in their
  order, and removes all others; the specification's example input sanitizes to
  \<open>http-connect:10.0.0.1:8080:u:pscript\<close>, since the letters of \<open>script\<close> are kept and only
  the two angle brackets go.
\<close>

theorem sanitize_keeps_class:
  "sanitize s = filter (\<lambda>c. c \<in> spec_kept_chars) s
   \<and> subseq (sanitize s) s
   \<and> set (sanitize s) = set s \<inter> spec_kept_chars
   \<and> sanitize ''http-connect:10.0.0.1:8080:u:p<script>''
       = ''http-connect:10.0.0.1:8080:u:pscript''"
proof -
  have a: "sanitize s = filter (\<lambda>c. c \<in> spec_kept_chars) s"
    unfolding sanitize_def by (simp only: kept_iff_spec)
  have b: "subseq (sanitize s) s"
    unfolding sanitize_def by simp
  have c: "set (sanitize s) = set s \<inter> spec_kept_chars"
    unfolding a by auto
  have d: "sanitize ''http-connect:10.0.0.1:8080:u:p<script>''
       = ''http-connect:10.0.0.1:8080:u:pscript''"
    by (simp add: sanitize_def isalnum_def)
  from a b c d show ?thesis by simp
qed

text \<open>
  C8, the claim as stated fails on its own example: the sanitized text still ends in
  \<open>script\<close>.
\<close>

theorem sanitize_example_counterexample:
  "sanitize ''http-connect:10.0.0.1:8080:u:p<script>'' \<noteq> ''http-connect:10.0.0.1:8080:u:p''"
  by (simp add: sanitize_def isalnum_def)

lemma unpack5_five: "unpack5 [a, b, c, d, e] = Inr (a, b, c, d, e)"
  by (simp add: unpack5_def)

lemma unpack5_other: "length xs \<noteq> 5 \<Longrightarrow> unpack5 xs = Inl ValueError"
  by (auto simp: unpack5_def split: list.splits)

lemma length5_fields:
  "length xs = 5 \<Longrightarrow> \<exists>a b c d e. xs = [a, b, c, d, e]"
  by (auto simp: length_Suc_conv eval_nat_numeral)

lemma resolve_body_bound:
  "split CHR '':'' (sanitize info) = [t, h, p, u, pw] \<Longrightarrow> t = ''http-connect'' \<Longrightarrow>
   resolve_body (DnsAnswers (info # others)) proxy
     = Inr (proxy\<lparr>delegated_to := Some (HttpConnectProxy h p)\<rparr>)"
  by (simp add: resolve_body_def query_txt_def unpack5_five)

lemma resolve_body_count:
  "length (split CHR '':'' (sanitize info)) \<noteq> 5 \<Longrightarrow>
   resolve_body (DnsAnswers (info # others)) proxy = Inl ValueError"
  by (simp add: resolve_body_def query_txt_def unpack5_other)

lemma resolve_body_type:
  assumes "length (split CHR '':'' (sanitize info)) = 5"
    and "hd (split CHR '':'' (sanitize info)) \<noteq> ''http-connect''"
  shows "resolve_body (DnsAnswers (info # others)) proxy = Inl AssertionError"
proof -
  from length5_fields [OF assms(1)] obtain a b c d e
    where eq: "split CHR '':'' (sanitize info) = [a, b, c, d, e]"
    by blast
  with assms(2) have "a \<noteq> ''http-connect''" by simp
  then have "''http-connect'' \<noteq> a" by (rule not_sym)
  then show ?thesis
    by (simp add: resolve_body_def query_txt_def eq unpack5_five)
qed

lemma resolve_body_record:
  "resolve_body reply proxy = Inr p' \<Longrightarrow> proxy_dns_record p' = proxy_dns_record proxy"
  unfolding resolve_body_def
  by (auto split: sum.splits if_splits prod.splits)

text \<open>
  C6. A \<open>DynamicProxy\<close> whose delegate is absent: reading \<open>died\<close> gives false, writing it
  changes nothing, \<open>is_protocol_supported\<close> is false for every protocol, and \<open>forward\<close>
  raises \<open>NotImplementedError\<close>, whatever the delegate's own methods would do.
\<close>

theorem unresolved_defaults:
  assumes "delegated_to self = None"
  shows "died_get self = False
    \<and> died_set self v = self
    \<and> is_protocol_supported delegate_supports self protocol = False
    \<and> forward delegate_forward self client = Inl NotImplementedError"
  using assms by (simp add: died_get_def died_set_def is_protocol_supported_def forward_def)

theorem unresolved_defaults_witness:
  "delegated_to (DynamicProxy ''proxy.example.com'') = None
   \<and> died_get (DynamicProxy ''proxy.example.com'') = False
   \<and> died_set (DynamicProxy ''proxy.example.com'') True = DynamicProxy ''proxy.example.com''
   \<and> is_protocol_supported (\<lambda>d p. True) (DynamicProxy ''proxy.example.com'') ''HTTP'' = False
   \<and> forward (\<lambda>d c. Inr c) (DynamicProxy ''proxy.example.com'') (0::nat) = Inl NotImplementedError"
proof -
  have h: "delegated_to (DynamicProxy ''proxy.example.com'') = None"
    by (simp add: DynamicProxy_def)
  show ?thesis
    using h unresolved_defaults [OF h, of True "\<lambda>d p. True" "''HTTP''" "\<lambda>d c. Inr c" "0::nat"]
    by simp
qed

text \<open>
  C3. \<open>resolve_proxy\<close> returns for every DNS outcome and every proxy: whatever the body of the
  \<open>try\<close> raised, the proxy comes back with \<open>delegated_to = None\<close>. The faults the
  specification lists are faults of the body: a DNS timeout, an answer that does not parse or
  has no record, a field count other than five, a type other than \<open>http-connect\<close>.
\<close>

theorem resolve_proxy_never_raises:
  "(\<exists>proxy'. resolve_proxy reply proxy = Inr proxy'
        \<and> proxy_dns_record proxy' = proxy_dns_record proxy
        \<and> (\<forall>e. resolve_body reply proxy = Inl e \<longrightarrow> delegated_to proxy' = None))
   \<and> resolve_body DnsTimeout proxy = Inl SocketError
   \<and> resolve_body DnsMalformed proxy = Inl UnpackError
   \<and> resolve_body (DnsAnswers []) proxy = Inl IndexError
   \<and> (length (split CHR '':'' (sanitize info)) \<noteq> 5 \<longrightarrow>
        resolve_body (DnsAnswers (info # others)) proxy = Inl ValueError)
   \<and> (length (split CHR '':'' (sanitize info)) = 5
        \<and> hd (split CHR '':'' (sanitize info)) \<noteq> ''http-connect'' \<longrightarrow>
        resolve_body (DnsAnswers (info # others)) proxy = Inl AssertionError)"
proof -
  have 1: "\<exists>proxy'. resolve_proxy reply proxy = Inr proxy'
        \<and> proxy_dns_record proxy' = proxy_dns_record proxy
        \<and> (\<forall>e. resolve_body reply proxy = Inl e \<longrightarrow> delegated_to proxy' = None)"
    by (cases "resolve_body reply proxy") (simp_all add: resolve_proxy_def resolve_body_record)
  have 2: "resolve_body DnsTimeout proxy = Inl SocketError"
    and 3: "resolve_body DnsMalformed proxy = Inl UnpackError"
    and 4: "resolve_body (DnsAnswers []) proxy = Inl IndexError"
    by (simp_all add: resolve_body_def query_txt_def)
  have 5: "length (split CHR '':'' (sanitize info)) \<noteq> 5 \<longrightarrow>
        resolve_body (DnsAnswers (info # others)) proxy = Inl ValueError"
    by (simp add: resolve_body_count)
  have 6: "length (split CHR '':'' (sanitize info)) = 5
        \<and> hd (split CHR '':'' (sanitize info)) \<noteq> ''http-connect'' \<longrightarrow>
        resolve_body (DnsAnswers (info # others)) proxy = Inl AssertionError"
    by (simp add: resolve_body_type)
  show ?thesis
    by (intro conjI) (rule 1, rule 2, rule 3, rule 4, rule 5, rule 6)
qed

theorem resolve_proxy_never_raises_witness:
  "resolve_proxy DnsTimeout (DynamicProxy ''p.example.com'') = Inr (DynamicProxy ''p.example.com'')
   \<and> resolve_proxy (DnsAnswers [''a:b<>'']) (DynamicProxy ''p.example.com'')
       = Inr (DynamicProxy ''p.example.com'')
   \<and> resolve_proxy (DnsAnswers [''socks5:10.0.0.1:1080:u:p'']) (DynamicProxy ''p.example.com'')
       = Inr (DynamicProxy ''p.example.com'')"
proof -
  let ?p = "DynamicProxy ''p.example.com''"
  have a: "length (split CHR '':'' (sanitize ''a:b<>'')) \<noteq> 5"
    by (simp add: sanitize_def isalnum_def)
  have b: "length (split CHR '':'' (sanitize ''socks5:10.0.0.1:1080:u:p'')) = 5
        \<and> hd (split CHR '':'' (sanitize ''socks5:10.0.0.1:1080:u:p'')) \<noteq> ''http-connect''"
    by (simp add: sanitize_def isalnum_def)
  have t: "resolve_body DnsTimeout ?p = Inl SocketError"
    using resolve_proxy_never_raises [of DnsTimeout ?p] by simp
  have v: "resolve_body (DnsAnswers [''a:b<>'']) ?p = Inl ValueError"
    using resolve_proxy_never_raises [of DnsTimeout ?p "''a:b<>''" "[]"] a by simp
  have s: "resolve_body (DnsAnswers [''socks5:10.0.0.1:1080:u:p'']) ?p = Inl AssertionError"
    using resolve_proxy_never_raises [of DnsTimeout ?p "''socks5:10.0.0.1:1080:u:p''" "[]"] b
    by simp
  have r: "resolve_proxy reply ?p = Inr ?p" if f: "resolve_body reply ?p = Inl e" for reply e
  proof -
    from resolve_proxy_never_raises [of reply ?p] obtain p' where
      p': "resolve_proxy reply ?p = Inr p'" "proxy_dns_record p' = proxy_dns_record ?p"
      "delegated_to p' = None"
      using f by auto
    have "p' = ?p" using p'(2,3) by (cases p') (simp add: DynamicProxy_def)
    with p'(1) show ?thesis by simp
  qed
  from r [OF t] r [OF v] r [OF s] show ?thesis by simp
qed

text \<open>
  C5. When the sanitized answer splits on \<open>:\<close> into exactly five fields and the first is
  \<open>http-connect\<close>, \<open>resolve_proxy\<close> binds a proxy whose host and port are the second and
  third field; with any other field count, or any other type, the proxy ends unresolved.
\<close>

theorem resolve_binds_five_fields:
  "(split CHR '':'' (sanitize info) = [t, h, p, u, pw] \<and> t = ''http-connect'' \<longrightarrow>
      (\<exists>d. resolve_proxy (DnsAnswers (info # others)) proxy = Inr (proxy\<lparr>delegated_to := Some d\<rparr>)
           \<and> hcp_host d = h \<and> hcp_port d = p))
   \<and> (length (split CHR '':'' (sanitize info)) \<noteq> 5
        \<or> hd (split CHR '':'' (sanitize info)) \<noteq> ''http-connect'' \<longrightarrow>
      resolve_proxy (DnsAnswers (info # others)) proxy = Inr (proxy\<lparr>delegated_to := None\<rparr>))"
proof (intro conjI impI)
  assume "split CHR '':'' (sanitize info) = [t, h, p, u, pw] \<and> t = ''http-connect''"
  then have "resolve_body (DnsAnswers (info # others)) proxy
     = Inr (proxy\<lparr>delegated_to := Some (HttpConnectProxy h p)\<rparr>)"
    by (simp add: resolve_body_bound)
  then show "\<exists>d. resolve_proxy (DnsAnswers (info # others)) proxy
        = Inr (proxy\<lparr>delegated_to := Some d\<rparr>)
      \<and> hcp_host d = h \<and> hcp_port d = p"
    by (intro exI [of _ "HttpConnectProxy h p"]) (simp add: resolve_proxy_def HttpConnectProxy_def)
next
  assume a: "length (split CHR '':'' (sanitize info)) \<noteq> 5
        \<or> hd (split CHR '':'' (sanitize info)) \<noteq> ''http-connect''"
  have "\<exists>e. resolve_body (DnsAnswers (info # others)) proxy = Inl e"
  proof (cases "length (split CHR '':'' (sanitize info)) = 5")
    case True
    with a have "hd (split CHR '':'' (sanitize info)) \<noteq> ''http-connect''" by simp
    from resolve_body_type [OF True this] show ?thesis by simp
  next
    case False
    from resolve_body_count [OF False] show ?thesis by simp
  qed
  then obtain e where "resolve_body (DnsAnswers (info # others)) proxy = Inl e" ..
  then show "resolve_proxy (DnsAnswers (info # others)) proxy = Inr (proxy\<lparr>delegated_to := None\<rparr>)"
    by (simp add: resolve_proxy_def)
qed

theorem resolve_binds_five_fields_witness:
  "(\<exists>d. resolve_proxy (DnsAnswers [''http-connect:10.0.0.1:8080:u:p''])
          (DynamicProxy ''p.example.com'')
        = Inr ((DynamicProxy ''p.example.com'')\<lparr>delegated_to := Some d\<rparr>)
      \<and> hcp_host d = ''10.0.0.1'' \<and> hcp_port d = ''8080'')
   \<and> resolve_proxy (DnsAnswers [''http-connect:10.0.0.1:8080:u'']) (DynamicProxy ''p.example.com'')
        = Inr ((DynamicProxy ''p.example.com'')\<lparr>delegated_to := None\<rparr>)
   \<and> resolve_proxy (DnsAnswers [''socks5:10.0.0.1:8080:u:p'']) (DynamicProxy ''p.example.com'')
        = Inr ((DynamicProxy ''p.example.com'')\<lparr>delegated_to := None\<rparr>)"
proof -
  have a: "split CHR '':'' (sanitize ''http-connect:10.0.0.1:8080:u:p'')
      = [''http-connect'', ''10.0.0.1'', ''8080'', ''u'', ''p''] \<and> ''http-connect'' = ''http-connect''"
    by (simp add: sanitize_def isalnum_def)
  have b: "length (split CHR '':'' (sanitize ''http-connect:10.0.0.1:8080:u'')) \<noteq> 5
      \<or> hd (split CHR '':'' (sanitize ''http-connect:10.0.0.1:8080:u'')) \<noteq> ''http-connect''"
    by (simp add: sanitize_def isalnum_def)
  have c: "length (split CHR '':'' (sanitize ''socks5:10.0.0.1:8080:u:p'')) \<noteq> 5
      \<or> hd (split CHR '':'' (sanitize ''socks5:10.0.0.1:8080:u:p'')) \<noteq> ''http-connect''"
    by (simp add: sanitize_def isalnum_def)
  note t = resolve_binds_five_fields [where others = "[]" and proxy = "DynamicProxy ''p.example.com''"]
  have 1: "\<exists>d. resolve_proxy (DnsAnswers [''http-connect:10.0.0.1:8080:u:p''])
          (DynamicProxy ''p.example.com'')
        = Inr ((DynamicProxy ''p.example.com'')\<lparr>delegated_to := Some d\<rparr>)
      \<and> hcp_host d = ''10.0.0.1'' \<and> hcp_port d = ''8080''"
    using t [THEN conjunct1, THEN mp, OF a] .
  have 2: "resolve_proxy (DnsAnswers [''http-connect:10.0.0.1:8080:u'']) (DynamicProxy ''p.example.com'')
        = Inr ((DynamicProxy ''p.example.com'')\<lparr>delegated_to := None\<rparr>)"
    using t [THEN conjunct2, THEN mp, OF b] .
  have 3: "resolve_proxy (DnsAnswers [''socks5:10.0.0.1:8080:u:p'']) (DynamicProxy ''p.example.com'')
        = Inr ((DynamicProxy ''p.example.com'')\<lparr>delegated_to := None\<rparr>)"
    using t [THEN conjunct2, THEN mp, OF c] .
  from 1 2 3 show ?thesis by (intro conjI)
qed

section \<open>Properties of spdy\_relay.py\<close>

lemma consume_frames_append:
  "consume_frames c (xs @ ys) =
     (case consume_frames c xs of
        (c', Some e) \<Rightarrow> (c', Some e)
      | (c', None) \<Rightarrow> consume_frames c' ys)"
  by (induction xs arbitrary: c) (auto split: prod.splits option.splits)

lemma loop_append_ok:
  "consume_frames c (concat before) = (c', None) \<Longrightarrow> loop c (before @ reads) = loop c' reads"
proof (induction before arbitrary: c)
  case Nil
  then show ?case by simp
next
  case (Cons b before)
  obtain c1 r where b: "consume_frames c b = (c1, r)" by (cases "consume_frames c b")
  with Cons.prems have r: "r = None" and rest: "consume_frames c1 (concat before) = (c', None)"
    by (auto simp: consume_frames_append split: option.splits)
  from Cons.IH [OF rest] b r show ?case by simp
qed

lemma consume_frame_unregistered:
  assumes "stream_id f = Some sid" and "streams c sid = None"
  shows "\<exists>c2 e. consume_frame c f = (c2, Some e) \<and> streams c2 = streams c
           \<and> (tls_open c \<longrightarrow> e = KeyError)"
  using assms
  by (cases f) (auto simp: consume_frame_def send_def Let_def split: option.splits)

lemma current_window_mono:
  "current_window c \<le> current_window (fst (consume_frame c f))"
  by (cases f) (auto simp: consume_frame_def send_def Let_def split: option.splits prod.splits)

text \<open>
  C1, on the code. \<open>consume_frames\<close> adds the payload length of every data frame to
  \<open>current_window\<close> and, once that is at least half of \<open>window_size\<close>, sends a window
  update for the whole window; but no frame ever lowers \<open>current_window\<close>. With a window of
  65536 and one registered stream, a data frame of 32768 bytes leaves the counter at 32768, not
  at 0, and a second data frame of one byte sends a second window update.
\<close>

theorem window_counter_never_reset:
  "(\<forall>c f. current_window c \<le> current_window (fst (consume_frame c f)))
   \<and> snd (consume_frames
        \<lparr>window_size = 65536, current_window = 0, streams = [1 \<mapsto> []],
         next_stream_id = 3, sent = [], tls_open = True\<rparr>
        [DataFrame 1 (replicate 32768 CHR ''x'')]) = None
   \<and> current_window (fst (consume_frames
        \<lparr>window_size = 65536, current_window = 0, streams = [1 \<mapsto> []],
         next_stream_id = 3, sent = [], tls_open = True\<rparr>
        [DataFrame 1 (replicate 32768 CHR ''x'')])) = 32768
   \<and> sent (fst (consume_frames
        \<lparr>window_size = 65536, current_window = 0, streams = [1 \<mapsto> []],
         next_stream_id = 3, sent = [], tls_open = True\<rparr>
        [DataFrame 1 (replicate 32768 CHR ''x''), DataFrame 1 ''y''])) 
       = [WindowUpdate 1 65536, WindowUpdate 1 65536]"
proof -
  have a: "\<forall>c f. current_window c \<le> current_window (fst (consume_frame c f))"
    by (simp add: current_window_mono)
  show ?thesis
    by (intro conjI, rule a) (simp_all add: consume_frame_def send_def Let_def)
qed

text \<open>
  C10. When the dispatch loop comes to a frame whose stream id has no entry in \<open>streams\<close>,
  \<open>consume_frames\<close> raises at that frame (the missing-key error, when the channel is
  writable) and \<open>loop\<close> ends there with the queues as they were: the frames behind it in the
  same read and all later reads reach no stream.
\<close>

theorem unregistered_stream_ends_loop:
  assumes "consume_frames c (concat before @ pre) = (c1, None)"
    and "stream_id f = Some sid"
    and "streams c1 sid = None"
  shows "\<exists>c2 e. loop c (before @ (pre @ f # post) # reads) = (c2, e)
           \<and> consume_frame c1 f = (c2, Some e)
           \<and> streams c2 = streams c1
           \<and> (tls_open c1 \<longrightarrow> e = KeyError)"
proof -
  obtain c0 r where c0: "consume_frames c (concat before) = (c0, r)"
    by (cases "consume_frames c (concat before)")
  with assms(1) have r: "r = None" and pre: "consume_frames c0 pre = (c1, None)"
    by (auto simp: consume_frames_append split: option.splits)
  from consume_frame_unregistered [OF assms(2,3)] obtain c2 e
    where f: "consume_frame c1 f = (c2, Some e)" and s: "streams c2 = streams c1"
      and k: "tls_open c1 \<longrightarrow> e = KeyError"
    by blast
  have "consume_frames c0 (pre @ f # post) = (c2, Some e)"
    by (simp add: consume_frames_append pre f)
  then have "loop c0 ((pre @ f # post) # reads) = (c2, e)" by simp
  moreover have "loop c (before @ (pre @ f # post) # reads) = loop c0 ((pre @ f # post) # reads)"
    using c0 r by (simp add: loop_append_ok)
  ultimately show ?thesis using f s k by simp
qed

theorem unregistered_stream_ends_loop_witness:
  "fst (loop \<lparr>window_size = 65536, current_window = 0, streams = [1 \<mapsto> []],
           next_stream_id = 3, sent = [], tls_open = True\<rparr>
         [[Ping 1], [DataFrame 1 ''ab'', RstStream 5 0, DataFrame 1 ''cd''], [DataFrame 1 ''ef'']])
     = \<lparr>window_size = 65536, current_window = 2, streams = [1 \<mapsto> [DataFrame 1 ''ab'']],
           next_stream_id = 3, sent = [], tls_open = True\<rparr>
   \<and> snd (loop \<lparr>window_size = 65536, current_window = 0, streams = [1 \<mapsto> []],
           next_stream_id = 3, sent = [], tls_open = True\<rparr>
         [[Ping 1], [DataFrame 1 ''ab'', RstStream 5 0, DataFrame 1 ''cd''], [DataFrame 1 ''ef'']])
     = KeyError"
proof -
  let ?c = "\<lparr>window_size = 65536, current_window = 0, streams = [1 \<mapsto> []],
           next_stream_id = 3, sent = [], tls_open = True\<rparr>"
  let ?c1 = "\<lparr>window_size = 65536, current_window = 2, streams = [1 \<mapsto> [DataFrame 1 ''ab'']],
           next_stream_id = 3, sent = [], tls_open = True\<rparr>"
  have a: "consume_frames ?c (concat [[Ping 1]] @ [DataFrame 1 ''ab'']) = (?c1, None)"
    by (simp add: consume_frame_def send_def Let_def)
  have b: "stream_id (RstStream 5 0) = Some 5" by simp
  have c: "streams ?c1 5 = None" by simp
  from unregistered_stream_ends_loop [OF a b c, of "[DataFrame 1 ''cd'']" "[[DataFrame 1 ''ef'']]"]
  obtain c2 e where
    l: "loop ?c ([[Ping 1]] @ ([DataFrame 1 ''ab''] @ RstStream 5 0 # [DataFrame 1 ''cd'']) # [[DataFrame 1 ''ef'']]) = (c2, e)"
    and f: "consume_frame ?c1 (RstStream 5 0) = (c2, Some e)"
    and k: "tls_open ?c1 \<longrightarrow> e = KeyError"
    by blast
  from f have "c2 = ?c1" by (simp add: consume_frame_def Let_def)
  moreover from k have "e = KeyError" by simp
  ultimately show ?thesis using l by simp
qed

lemma connect_total: "\<exists>p'. connect h p = Inr p'"
  by (simp add: connect_def split: prod.splits option.splits)

lemma connect_failed_died:
  "SpdyClient h = Inl e \<Longrightarrow> connect h p = Inr p' \<Longrightarrow> died p'"
  by (auto simp: connect_def connect_body_def Let_def split: prod.splits option.splits)

lemma refresh_from_ok:
  "\<exists>ps'. refresh_from k net ps = Inr ps' \<and> length ps' = length ps
     \<and> (\<forall>i<length ps. connect (net (k + i)) (ps ! i) = Inr (ps' ! i))"
proof (induction ps arbitrary: k)
  case Nil
  then show ?case by simp
next
  case (Cons p ps)
  from connect_total obtain p' where p': "connect (net k) p = Inr p'" by blast
  from Cons.IH [of "Suc k"] obtain ps' where
    ps': "refresh_from (Suc k) net ps = Inr ps'" "length ps' = length ps"
      "\<forall>i<length ps. connect (net (Suc k + i)) (ps ! i) = Inr (ps' ! i)"
    by blast
  have "\<forall>i<length (p # ps). connect (net (k + i)) ((p # ps) ! i) = Inr ((p' # ps') ! i)"
  proof (intro allI impI)
    fix i assume "i < length (p # ps)"
    then show "connect (net (k + i)) ((p # ps) ! i) = Inr ((p' # ps') ! i)"
      using p' ps'(3) by (cases i) auto
  qed
  with p' ps'(1,2) show ?case by simp
qed

text \<open>
  C9. \<open>refresh\<close> calls \<open>connect\<close> on every proxy of the list, in order, and returns true
  whatever the list and whatever each attempt meets. \<open>connect\<close> never raises: when building
  the tunnel client fails, the proxy comes back with \<open>died\<close> set.
\<close>

theorem refresh_always_true:
  "\<exists>proxies'. refresh net proxies = Inr (proxies', True)
      \<and> length proxies' = length proxies
      \<and> (\<forall>i<length proxies.
            connect (net i) (proxies ! i) = Inr (proxies' ! i)
            \<and> ((\<exists>e. SpdyClient (net i) = Inl e) \<longrightarrow> died (proxies' ! i)))"
proof -
  from refresh_from_ok [of 0 net proxies] obtain ps' where
    ps': "refresh_from 0 net proxies = Inr ps'" "length ps' = length proxies"
      "\<forall>i<length proxies. connect (net i) (proxies ! i) = Inr (ps' ! i)"
    by auto
  have "refresh net proxies = Inr (ps', True)" by (simp add: refresh_def ps'(1))
  moreover have "\<forall>i<length proxies.
            connect (net i) (proxies ! i) = Inr (ps' ! i)
            \<and> ((\<exists>e. SpdyClient (net i) = Inl e) \<longrightarrow> died (ps' ! i))"
    using ps'(3) connect_failed_died by blast
  ultimately show ?thesis using ps'(2) by blast
qed

theorem refresh_always_true_witness:
  "\<exists>proxies'.
     refresh (\<lambda>i. if i = 0 then TcpFailed else Negotiated (Some ''spdy/3''))
       [SpdyRelayProxy ''10.0.0.1'' 443 None None False,
        SpdyRelayProxy ''10.0.0.2'' 443 None None False]
       = Inr (proxies', True)
     \<and> length proxies' = 2
     \<and> died (proxies' ! 0) \<and> \<not> died (proxies' ! 1)
     \<and> spdy_client (proxies' ! 0) = None"
proof -
  let ?net = "\<lambda>i::nat. if i = 0 then TcpFailed else Negotiated (Some ''spdy/3'')"
  let ?ps = "[SpdyRelayProxy ''10.0.0.1'' 443 None None False,
        SpdyRelayProxy ''10.0.0.2'' 443 None None False]"
  from refresh_always_true [of ?net ?ps] obtain ps' where
    r: "refresh ?net ?ps = Inr (ps', True)" and l: "length ps' = length ?ps"
    and c: "\<forall>i<length ?ps. connect (?net i) (?ps ! i) = Inr (ps' ! i)
            \<and> ((\<exists>e. SpdyClient (?net i) = Inl e) \<longrightarrow> died (ps' ! i))"
    by blast
  have c0: "connect (?net 0) (?ps ! 0) = Inr (ps' ! 0)"
    using c [THEN spec, of 0] by simp
  have c1: "connect (?net 1) (?ps ! 1) = Inr (ps' ! 1)"
    using c [THEN spec, of 1] by simp
  from c0 [symmetric] have d0: "died (ps' ! 0) \<and> spdy_client (ps' ! 0) = None"
    by (simp add: connect_def connect_body_def relay_close_def SpdyClient_def
        SpdyRelayProxy_def Let_def)
  from c1 [symmetric] have d1: "\<not> died (ps' ! 1)"
    by (simp add: connect_def connect_body_def relay_close_def SpdyClient_def
        SpdyRelayProxy_def Let_def)
  from r l d0 d1 show ?thesis by simp
qed

lemma sendall_fields [simp]:
  "forward_started (sendall c p) = forward_started c"
  "fall_back_reasons (sendall c p) = fall_back_reasons c"
  by (simp_all add: sendall_def)

lemma foldl_sendall_fields [simp]:
  "forward_started (foldl (\<lambda>c' (k, v). sendall c' (g k v)) c xs) = forward_started c"
  "fall_back_reasons (foldl (\<lambda>c' (k, v). sendall c' (g k v)) c xs) = fall_back_reasons c"
  by (induction xs arbitrary: c) (auto)

lemma on_syn_reply_frame_fields:
  assumes "on_syn_reply_frame c hs = Inr (c', n)"
  shows "forward_started c'" and "fall_back_reasons c' = fall_back_reasons c"
  using assms
  by (auto simp: on_syn_reply_frame_def Let_def split: option.splits if_splits)

lemma on_data_frame_fields:
  assumes "on_data_frame c data = (c', n)"
  shows "forward_started c' = forward_started c"
    and "fall_back_reasons c' = fall_back_reasons c"
    and "n = int (length data)"
  using assms by (auto simp: on_data_frame_def)

lemma data_total_nonneg: "0 \<le> data_total fs"
  by (induction fs rule: data_total.induct) auto

lemma started_never_falls_back:
  "forward_started c \<Longrightarrow> forward_frames r c fs \<noteq> Inr (c', FellBack)"
proof (induction fs arbitrary: r c)
  case Nil
  then show ?case by simp
next
  case (Cons f fs)
  show ?case
  proof (cases "0 < r")
    case False
    then show ?thesis by simp
  next
    case True
    show ?thesis
    proof (cases f)
      case (SynReply sid hs)
      show ?thesis
      proof (cases "on_syn_reply_frame c hs")
        case (Inl e)
        with True SynReply show ?thesis by simp
      next
        case (Inr res)
        obtain c1 n where res: "res = (c1, n)" by (cases res)
        from on_syn_reply_frame_fields(1) [OF Inr [unfolded res]] have "forward_started c1" .
        from Cons.IH [OF this] True SynReply Inr res show ?thesis by simp
      qed
    next
      case (DataFrame sid data)
      have "forward_started (sendall (c\<lparr>forward_started := True\<rparr>) data)" by simp
      from Cons.IH [OF this] True DataFrame show ?thesis
        by (simp add: on_data_frame_def)
    qed (use True Cons in simp_all)
  qed
qed

lemma fell_back_unchanged:
  "forward_frames r c fs = Inr (c', FellBack) \<Longrightarrow>
     \<not> forward_started c \<and> c' = fall_back c ''no response from proxy''"
proof (induction fs arbitrary: r c)
  case Nil
  then show ?case by (auto split: if_splits)
next
  case (Cons f fs)
  from Cons.prems have r: "0 < r" by (auto split: if_splits)
  show ?case
  proof (cases f)
    case (SynReply sid hs)
    show ?thesis
    proof (cases "on_syn_reply_frame c hs")
      case (Inl e)
      with r SynReply Cons.prems show ?thesis by simp
    next
      case (Inr res)
      obtain c1 n where res: "res = (c1, n)" by (cases res)
      from on_syn_reply_frame_fields(1) [OF Inr [unfolded res]] have "forward_started c1" .
      from started_never_falls_back [OF this] r SynReply Inr res Cons.prems
      show ?thesis by simp
    qed
  next
    case (DataFrame sid data)
    have "forward_started (sendall (c\<lparr>forward_started := True\<rparr>) data)" by simp
    from started_never_falls_back [OF this] r DataFrame Cons.prems show ?thesis
      by (simp add: on_data_frame_def)
  qed (use r Cons in simp_all)
qed

lemma completed_no_fallback:
  "forward_frames r c fs = Inr (c', Completed) \<Longrightarrow> fall_back_reasons c' = fall_back_reasons c"
proof (induction fs arbitrary: r c)
  case Nil
  then show ?case by (auto split: if_splits)
next
  case (Cons f fs)
  show ?case
  proof (cases "0 < r")
    case False
    with Cons.prems show ?thesis by simp
  next
    case True
    show ?thesis
    proof (cases f)
      case (SynReply sid hs)
      show ?thesis
      proof (cases "on_syn_reply_frame c hs")
        case (Inl e)
        with True SynReply Cons.prems show ?thesis by simp
      next
        case (Inr res)
        obtain c1 n where res: "res = (c1, n)" by (cases res)
        from on_syn_reply_frame_fields(2) [OF Inr [unfolded res]]
        have "fall_back_reasons c1 = fall_back_reasons c" .
        moreover from True SynReply Inr res Cons.prems
        have "forward_frames n c1 fs = Inr (c', Completed)" by simp
        from Cons.IH [OF this] have "fall_back_reasons c' = fall_back_reasons c1" .
        ultimately show ?thesis by simp
      qed
    next
      case (DataFrame sid data)
      from True DataFrame Cons.prems
      have "forward_frames (r - int (length data))
              (sendall (c\<lparr>forward_started := True\<rparr>) data) fs = Inr (c', Completed)"
        by (simp add: on_data_frame_def)
      from Cons.IH [OF this] show ?thesis by simp
    qed (use True Cons in simp_all)
  qed
qed

lemma too_long_started:
  "forward_frames r c fs = Inl TakingTooLong \<Longrightarrow>
     forward_started c \<or> (\<exists>f\<in>set fs. starts_forwarding f)"
proof (induction fs arbitrary: r c)
  case Nil
  then show ?case by (auto split: if_splits)
next
  case (Cons f fs)
  from Cons.prems have r: "0 < r" by (auto split: if_splits)
  show ?case
  proof (cases "starts_forwarding f")
    case True
    then show ?thesis by simp
  next
    case False
    with r Cons.prems have "forward_frames r c fs = Inl TakingTooLong"
      by (cases f) simp_all
    from Cons.IH [OF this] show ?thesis by auto
  qed
qed

lemma quiet_falls_back:
  "0 < r \<Longrightarrow> \<not> forward_started c \<Longrightarrow> \<forall>f\<in>set fs. \<not> starts_forwarding f \<Longrightarrow>
     forward_frames r c fs = Inr (fall_back c ''no response from proxy'', FellBack)"
proof (induction fs)
  case Nil
  then show ?case by simp
next
  case (Cons f fs)
  then show ?case by (cases f) simp_all
qed

lemma partial_times_out:
  "0 < r \<Longrightarrow> \<forall>f\<in>set fs. \<not> is_reply f \<Longrightarrow> data_total fs < r \<Longrightarrow>
   forward_started c \<or> (\<exists>f\<in>set fs. starts_forwarding f) \<Longrightarrow>
     forward_frames r c fs = Inl TakingTooLong"
proof (induction fs arbitrary: r c)
  case Nil
  then show ?case by simp
next
  case (Cons f fs)
  show ?case
  proof (cases f)
    case (SynReply sid hs)
    with Cons.prems(2) show ?thesis by simp
  next
    case (DataFrame sid data)
    let ?c = "sendall (c\<lparr>forward_started := True\<rparr>) data"
    from Cons.prems(3) DataFrame have "data_total fs < r - int (length data)" by simp
    moreover from this data_total_nonneg [of fs] have "0 < r - int (length data)" by simp
    moreover from Cons.prems(2) have "\<forall>f\<in>set fs. \<not> is_reply f" by simp
    moreover have "forward_started ?c \<or> (\<exists>f\<in>set fs. starts_forwarding f)" by simp
    ultimately have "forward_frames (r - int (length data)) ?c fs = Inl TakingTooLong"
      by (intro Cons.IH)
    with Cons.prems(1) DataFrame show ?thesis by (simp add: on_data_frame_def)
  next
    case (Settings x)
    with Cons.prems have "forward_frames r c fs = Inl TakingTooLong"
      by (intro Cons.IH) auto
    with Cons.prems(1) Settings show ?thesis by simp
  next
    case (SynStream x y)
    with Cons.prems have "forward_frames r c fs = Inl TakingTooLong"
      by (intro Cons.IH) auto
    with Cons.prems(1) SynStream show ?thesis by simp
  next
    case (WindowUpdate x y)
    with Cons.prems have "forward_frames r c fs = Inl TakingTooLong"
      by (intro Cons.IH) auto
    with Cons.prems(1) WindowUpdate show ?thesis by simp
  next
    case (RstStream x y)
    with Cons.prems have "forward_frames r c fs = Inl TakingTooLong"
      by (intro Cons.IH) auto
    with Cons.prems(1) RstStream show ?thesis by simp
  next
    case (Ping x)
    with Cons.prems have "forward_frames r c fs = Inl TakingTooLong"
      by (intro Cons.IH) auto
    with Cons.prems(1) Ping show ?thesis by simp
  next
    case (Goaway x)
    with Cons.prems have "forward_frames r c fs = Inl TakingTooLong"
      by (intro Cons.IH) auto
    with Cons.prems(1) Goaway show ?thesis by simp
  qed
qed

lemma reply_counts:
  assumes ver: "map_of (dict hs) '':version'' = Some ver"
    and st: "map_of (dict hs) '':status'' = Some st"
  shows "\<exists>c'. forward_started c'
      \<and> (startswith st ''304'' \<longrightarrow> on_syn_reply_frame c hs = Inr (c', 0))
      \<and> (\<not> startswith st ''304'' \<and> map_of (dict hs) ''content-length'' = None \<longrightarrow>
            on_syn_reply_frame c hs = Inr (c', sys_maxint))
      \<and> (\<forall>v n. \<not> startswith st ''304'' \<and> map_of (dict hs) ''content-length'' = Some v
            \<and> py_int v = Some n \<longrightarrow>
            on_syn_reply_frame c hs = Inr (c', n))"
proof -
  define hdrs2 where "hdrs2 = AList.delete '':status'' (AList.delete '':version'' (dict hs))"
  define c4 where "c4 = sendall
      (foldl (\<lambda>c' (k, v). sendall c' (k @ '': '' @ v @ CRLF))
         (sendall (c\<lparr>forward_started := True\<rparr>) (ver @ '' '' @ st @ CRLF)) hdrs2) CRLF"
  have s1: "map_of (AList.delete '':version'' (dict hs)) '':status'' = Some st"
    by (simp add: delete_conv st)
  have cl: "map_of hdrs2 ''content-length'' = map_of (dict hs) ''content-length''"
    by (simp add: hdrs2_def delete_conv)
  have eq: "on_syn_reply_frame c hs =
      (if startswith st ''304'' then Inr (c4, 0)
       else (case map_of (dict hs) ''content-length'' of
               None \<Rightarrow> Inr (c4, sys_maxint)
             | Some v \<Rightarrow> (case py_int v of None \<Rightarrow> Inl ValueError | Some n \<Rightarrow> Inr (c4, n))))"
    unfolding on_syn_reply_frame_def Let_def
    by (simp only: ver s1 option.case cl [unfolded hdrs2_def] c4_def hdrs2_def)
  have "forward_started c4" by (simp add: c4_def)
  with eq show ?thesis by (intro exI [of _ c4]) simp
qed

text \<open>
  C4. A reply-header frame that has its \<open>:version\<close> and \<open>:status\<close>: when the status starts
  with \<open>304\<close> the remaining-byte count is 0, whatever \<open>content-length\<close> says, and the loop of
  \<open>do_forward\<close> ends there; otherwise the count is the number \<open>content-length\<close> holds, or
  \<open>sys.maxint\<close> when there is no \<open>content-length\<close>.
\<close>

theorem reply_remaining_bytes:
  assumes "map_of (dict hs) '':version'' = Some ver"
    and "map_of (dict hs) '':status'' = Some st"
  shows "\<exists>c'. forward_started c'
      \<and> (startswith st ''304'' \<longrightarrow>
            on_syn_reply_frame c hs = Inr (c', 0)
            \<and> (0 < remaining \<longrightarrow>
                 forward_frames remaining c (SynReply sid hs # rest) = Inr (c', Completed)))
      \<and> (\<not> startswith st ''304'' \<and> map_of (dict hs) ''content-length'' = None \<longrightarrow>
            on_syn_reply_frame c hs = Inr (c', sys_maxint))
      \<and> (\<not> startswith st ''304'' \<and> map_of (dict hs) ''content-length'' = Some v
            \<and> py_int v = Some n \<longrightarrow>
            on_syn_reply_frame c hs = Inr (c', n)
            \<and> (0 < remaining \<longrightarrow>
                 forward_frames remaining c (SynReply sid hs # rest) = forward_frames n c' rest))"
proof -
  from reply_counts [OF assms, of c] obtain c' where
    a: "forward_started c'"
    and b: "startswith st ''304'' \<longrightarrow> on_syn_reply_frame c hs = Inr (c', 0)"
    and d: "\<not> startswith st ''304'' \<and> map_of (dict hs) ''content-length'' = None \<longrightarrow>
            on_syn_reply_frame c hs = Inr (c', sys_maxint)"
    and e: "\<forall>v n. \<not> startswith st ''304'' \<and> map_of (dict hs) ''content-length'' = Some v
            \<and> py_int v = Some n \<longrightarrow> on_syn_reply_frame c hs = Inr (c', n)"
    by blast
  have b': "startswith st ''304'' \<longrightarrow>
            on_syn_reply_frame c hs = Inr (c', 0)
            \<and> (0 < remaining \<longrightarrow>
                 forward_frames remaining c (SynReply sid hs # rest) = Inr (c', Completed))"
  proof
    assume "startswith st ''304''"
    with b have r: "on_syn_reply_frame c hs = Inr (c', 0)" by simp
    have "forward_frames 0 c' rest = Inr (c', Completed)" by (cases rest) simp_all
    with r show "on_syn_reply_frame c hs = Inr (c', 0)
            \<and> (0 < remaining \<longrightarrow>
                 forward_frames remaining c (SynReply sid hs # rest) = Inr (c', Completed))"
      by simp
  qed
  have e': "\<not> startswith st ''304'' \<and> map_of (dict hs) ''content-length'' = Some v
            \<and> py_int v = Some n \<longrightarrow>
            on_syn_reply_frame c hs = Inr (c', n)
            \<and> (0 < remaining \<longrightarrow>
                 forward_frames remaining c (SynReply sid hs # rest) = forward_frames n c' rest)"
  proof
    assume h: "\<not> startswith st ''304'' \<and> map_of (dict hs) ''content-length'' = Some v
            \<and> py_int v = Some n"
    with e have r: "on_syn_reply_frame c hs = Inr (c', n)" by blast
    then show "on_syn_reply_frame c hs = Inr (c', n)
            \<and> (0 < remaining \<longrightarrow>
                 forward_frames remaining c (SynReply sid hs # rest) = forward_frames n c' rest)"
      by simp
  qed
  show ?thesis by (intro exI [of _ c'] conjI) (rule a, rule b', rule d, rule e')
qed

lemma py_int_100: "py_int ''100'' = Some 100"
  by (simp add: py_int_def strip_def isspace_def isdigit_def digits_value_def)

theorem reply_remaining_bytes_witness:
  "(\<exists>c'. on_syn_reply_frame
           \<lparr>request_method = ''GET'', path = ''/'', host = ''example.com'', headers = [],
            forward_started = False, downstream_sock = [], fall_back_reasons = []\<rparr>
           [('':status'', ''304 Not Modified''), ('':version'', ''HTTP/1.1''),
            (''content-length'', ''100'')] = Inr (c', 0))
   \<and> (\<exists>c'. on_syn_reply_frame
           \<lparr>request_method = ''GET'', path = ''/'', host = ''example.com'', headers = [],
            forward_started = False, downstream_sock = [], fall_back_reasons = []\<rparr>
           [('':status'', ''200 OK''), ('':version'', ''HTTP/1.1''),
            (''content-length'', ''100'')] = Inr (c', 100))
   \<and> (\<exists>c'. on_syn_reply_frame
           \<lparr>request_method = ''GET'', path = ''/'', host = ''example.com'', headers = [],
            forward_started = False, downstream_sock = [], fall_back_reasons = []\<rparr>
           [('':status'', ''200 OK''), ('':version'', ''HTTP/1.1'')] = Inr (c', sys_maxint))"
proof -
  let ?c = "\<lparr>request_method = ''GET'', path = ''/'', host = ''example.com'', headers = [],
            forward_started = False, downstream_sock = [], fall_back_reasons = []\<rparr>"
  let ?h304 = "[('':status'', ''304 Not Modified''), ('':version'', ''HTTP/1.1''),
            (''content-length'', ''100'')]"
  let ?h200 = "[('':status'', ''200 OK''), ('':version'', ''HTTP/1.1''),
            (''content-length'', ''100'')]"
  let ?hnone = "[('':status'', ''200 OK''), ('':version'', ''HTTP/1.1'')]"
  have v1: "map_of (dict ?h304) '':version'' = Some ''HTTP/1.1''"
    and s1: "map_of (dict ?h304) '':status'' = Some ''304 Not Modified''"
    and v2: "map_of (dict ?h200) '':version'' = Some ''HTTP/1.1''"
    and s2: "map_of (dict ?h200) '':status'' = Some ''200 OK''"
    and l2: "map_of (dict ?h200) ''content-length'' = Some ''100''"
    and v3: "map_of (dict ?hnone) '':version'' = Some ''HTTP/1.1''"
    and s3: "map_of (dict ?hnone) '':status'' = Some ''200 OK''"
    and l3: "map_of (dict ?hnone) ''content-length'' = None"
    by (simp_all add: dict_def)
  have p1: "startswith ''304 Not Modified'' ''304''"
    and p2: "\<not> startswith ''200 OK'' ''304''"
    by (simp_all add: startswith_def)
  from reply_remaining_bytes [OF v1 s1, where c = ?c] p1
  have 1: "\<exists>c'. on_syn_reply_frame ?c ?h304 = Inr (c', 0)" by blast
  from reply_remaining_bytes [OF v2 s2, where c = ?c and v = "''100''" and n = 100] p2 l2 py_int_100
  have 2: "\<exists>c'. on_syn_reply_frame ?c ?h200 = Inr (c', 100)" by blast
  from reply_remaining_bytes [OF v3 s3, where c = ?c] p2 l3
  have 3: "\<exists>c'. on_syn_reply_frame ?c ?hnone = Inr (c', sys_maxint)" by blast
  from 1 2 3 show ?thesis by (intro conjI)
qed

text \<open>
  C2. In the loop of \<open>do_forward\<close>, when the queue stays empty for the wait:
  if no reply-header or data frame was handled and \<open>forward_started\<close> was not set, the loop
  calls \<open>fall_back\<close> exactly once, writes nothing to the client and returns; if forwarding
  had started (the flag was set, or a data frame was written through with bytes still to
  come), it raises. Conversely a call that fell back had forwarded nothing, a call that
  raised this failure had begun to forward, and a call that completed never fell back.
\<close>

theorem timeout_fallback_or_fatal:
  "(0 < remaining \<and> \<not> forward_started c \<and> (\<forall>f\<in>set fs. \<not> starts_forwarding f) \<longrightarrow>
      forward_frames remaining c fs = Inr (fall_back c ''no response from proxy'', FellBack))
   \<and> (0 < remaining \<and> (\<forall>f\<in>set fs. \<not> is_reply f) \<and> data_total fs < remaining
        \<and> (forward_started c \<or> (\<exists>f\<in>set fs. starts_forwarding f)) \<longrightarrow>
      forward_frames remaining c fs = Inl TakingTooLong)
   \<and> (forward_frames remaining c fs = Inr (c', FellBack) \<longrightarrow>
        \<not> forward_started c
        \<and> fall_back_reasons c' = fall_back_reasons c @ [''no response from proxy'']
        \<and> downstream_sock c' = downstream_sock c
        \<and> \<not> forward_started c')
   \<and> (forward_frames remaining c fs = Inr (c', Completed) \<longrightarrow>
        fall_back_reasons c' = fall_back_reasons c)
   \<and> (forward_frames remaining c fs = Inl TakingTooLong \<longrightarrow>
        forward_started c \<or> (\<exists>f\<in>set fs. starts_forwarding f))"
proof (intro conjI impI)
  assume "0 < remaining \<and> \<not> forward_started c \<and> (\<forall>f\<in>set fs. \<not> starts_forwarding f)"
  then show "forward_frames remaining c fs = Inr (fall_back c ''no response from proxy'', FellBack)"
    by (simp add: quiet_falls_back)
next
  assume "0 < remaining \<and> (\<forall>f\<in>set fs. \<not> is_reply f) \<and> data_total fs < remaining
        \<and> (forward_started c \<or> (\<exists>f\<in>set fs. starts_forwarding f))"
  then show "forward_frames remaining c fs = Inl TakingTooLong"
    by (intro partial_times_out) simp_all
next
  assume a: "forward_frames remaining c fs = Inr (c', FellBack)"
  from fell_back_unchanged [OF a]
  have n: "\<not> forward_started c" and e: "c' = fall_back c ''no response from proxy''" by simp_all
  from n show "\<not> forward_started c" .
  from e show "fall_back_reasons c' = fall_back_reasons c @ [''no response from proxy'']"
    by (simp add: fall_back_def)
  from e show "downstream_sock c' = downstream_sock c" by (simp add: fall_back_def)
  from e n show "\<not> forward_started c'" by (simp add: fall_back_def)
next
  assume "forward_frames remaining c fs = Inr (c', Completed)"
  then show "fall_back_reasons c' = fall_back_reasons c" by (rule completed_no_fallback)
next
  assume "forward_frames remaining c fs = Inl TakingTooLong"
  then show "forward_started c \<or> (\<exists>f\<in>set fs. starts_forwarding f)" by (rule too_long_started)
qed

theorem timeout_fallback_or_fatal_witness:
  "forward_frames sys_maxint
      \<lparr>request_method = ''GET'', path = ''/'', host = ''example.com'', headers = [],
       forward_started = False, downstream_sock = [], fall_back_reasons = []\<rparr>
      [Ping 1]
     = Inr (\<lparr>request_method = ''GET'', path = ''/'', host = ''example.com'', headers = [],
             forward_started = False, downstream_sock = [],
             fall_back_reasons = [''no response from proxy'']\<rparr>, FellBack)
   \<and> forward_frames sys_maxint
      \<lparr>request_method = ''GET'', path = ''/'', host = ''example.com'', headers = [],
       forward_started = False, downstream_sock = [], fall_back_reasons = []\<rparr>
      [SynReply 1 [('':status'', ''200 OK''), ('':version'', ''HTTP/1.1''),
                   (''content-length'', ''100'')],
       DataFrame 1 (replicate 40 CHR ''x'')]
     = Inl TakingTooLong"
proof -
  let ?c = "\<lparr>request_method = ''GET'', path = ''/'', host = ''example.com'', headers = [],
       forward_started = False, downstream_sock = [], fall_back_reasons = []\<rparr>"
  let ?h200 = "[('':status'', ''200 OK''), ('':version'', ''HTTP/1.1''),
            (''content-length'', ''100'')]"
  have m: "(0::int) < sys_maxint" by (simp add: sys_maxint_def)
  have q: "0 < sys_maxint \<and> \<not> forward_started ?c \<and> (\<forall>f\<in>set [Ping 1]. \<not> starts_forwarding f)"
    using m by simp
  have 1: "forward_frames sys_maxint ?c [Ping 1]
      = Inr (fall_back ?c ''no response from proxy'', FellBack)"
    using timeout_fallback_or_fatal [where remaining = sys_maxint and c = ?c and fs = "[Ping 1]", THEN conjunct1, THEN mp, OF q] .
  have "map_of (dict ?h200) '':version'' = Some ''HTTP/1.1''"
    and "map_of (dict ?h200) '':status'' = Some ''200 OK''"
    and "map_of (dict ?h200) ''content-length'' = Some ''100''"
    and "\<not> startswith ''200 OK'' ''304''"
    by (simp_all add: dict_def startswith_def)
  with reply_counts [where hs = ?h200 and ver = "''HTTP/1.1''" and st = "''200 OK''" and c = ?c] py_int_100
  obtain c1 where r: "on_syn_reply_frame ?c ?h200 = Inr (c1, 100)" by blast
  have p: "0 < (100::int) \<and> (\<forall>f\<in>set [DataFrame 1 (replicate 40 CHR ''x'')]. \<not> is_reply f)
      \<and> data_total [DataFrame 1 (replicate 40 CHR ''x'')] < 100
      \<and> (forward_started c1 \<or> (\<exists>f\<in>set [DataFrame 1 (replicate 40 CHR ''x'')]. starts_forwarding f))"
    by simp
  have 2: "forward_frames 100 c1 [DataFrame 1 (replicate 40 CHR ''x'')] = Inl TakingTooLong"
    using timeout_fallback_or_fatal [where remaining = 100 and c = c1 and fs = "[DataFrame 1 (replicate 40 CHR ''x'')]",
        THEN conjunct2, THEN conjunct1, THEN mp, OF p] .
  have 3: "forward_frames sys_maxint ?c [SynReply 1 ?h200, DataFrame 1 (replicate 40 CHR ''x'')]
      = forward_frames 100 c1 [DataFrame 1 (replicate 40 CHR ''x'')]"
    using m r by simp
  from 1 2 3 show ?thesis by (simp add: fall_back_def)
qed

lemma map_of_foldl_update:
  "map_of (foldl (\<lambda>h (k, v). AList.update (g k) v h) h0 xs)
     = map_of h0 ++ map_of (rev (map (\<lambda>(k, v). (g k, v)) xs))"
proof (induction xs arbitrary: h0)
  case Nil
  then show ?case by simp
next
  case (Cons x xs)
  obtain k v where x: "x = (k, v)" by (cases x)
  have "map_of (foldl (\<lambda>h (k, v). AList.update (g k) v h) h0 (x # xs))
      = map_of (AList.update (g k) v h0) ++ map_of (rev (map (\<lambda>(k, v). (g k, v)) xs))"
    using Cons.IH [of "AList.update (g k) v h0"] x by simp
  also have "\<dots> = map_of h0 ++ map_of (rev (map (\<lambda>(k, v). (g k, v)) (x # xs)))"
    by (rule ext) (simp add: x update_conv' map_add_def split: option.splits)
  finally show ?case .
qed

lemma distinct_foldl_update:
  "distinct (map fst h0) \<Longrightarrow>
     distinct (map fst (foldl (\<lambda>h (k, v). AList.update (g k) v h) h0 xs))"
  by (induction xs arbitrary: h0) (auto simp: distinct_update)

lemma b64_alphabet_no_space: "\<forall>c\<in>set b64_alphabet. \<not> isspace c"
  by (simp add: b64_alphabet_def isspace_def)

lemma b64_char_no_space: "\<not> isspace (b64_char n)"
proof -
  have "length b64_alphabet = 64" by (simp add: b64_alphabet_def)
  then have "b64_char n \<in> set b64_alphabet"
    by (simp add: b64_char_def)
  with b64_alphabet_no_space show ?thesis by blast
qed

lemma b64_groups_no_space: "\<forall>c\<in>set (b64_groups xs). \<not> isspace c"
proof (induction xs rule: b64_groups.induct)
  case 1
  then show ?case by simp
next
  case (2 a)
  have "\<not> isspace CHR ''=''" by (simp add: isspace_def)
  then show ?case by (simp add: b64_char_no_space)
next
  case (3 a b)
  have "\<not> isspace CHR ''=''" by (simp add: isspace_def)
  then show ?case by (simp add: b64_char_no_space)
next
  case (4 a b c rest)
  then show ?case by (simp add: b64_char_no_space)
qed

lemma strip_no_space: "\<forall>c\<in>set s. \<not> isspace c \<Longrightarrow> strip s = s"
proof -
  assume a: "\<forall>c\<in>set s. \<not> isspace c"
  then have 1: "dropWhile isspace s = s" by (cases s) simp_all
  from a have "\<forall>c\<in>set (rev s). \<not> isspace c" by simp
  then have 2: "dropWhile isspace (rev s) = rev s" by (cases "rev s") simp_all
  show ?thesis by (simp add: strip_def 1 2)
qed

lemma strip_b64encode: "strip (b64encode s) = b64encode s"
  by (simp add: strip_no_space b64encode_def b64_groups_no_space)

text \<open>
  The headers of the stream as a map, value by value: the five reserved names, then
  \<open>proxy-authorization\<close> as line 122 formats it, then the headers of the request.
\<close>

lemma do_forward_headers_exact:
  "map_of (do_forward_headers self c) =
     [('':method'') \<mapsto> request_method c, ('':scheme'') \<mapsto> ''http'', ('':path'') \<mapsto> path c,
      ('':version'') \<mapsto> ''HTTP/1.1'', ('':host'') \<mapsto> host c]
     ++ (case (username self, password self) of
           (Some u, Some p) \<Rightarrow>
             if u \<noteq> [] \<and> p \<noteq> []
             then [''proxy-authorization'' \<mapsto> ''Basic '' @ b64encode (u @ '':'' @ p) @ CRLF]
             else Map.empty
         | _ \<Rightarrow> Map.empty)
     ++ map_of (rev (map (\<lambda>(k, v). (lower k, v)) (headers c)))
   \<and> distinct (map fst (do_forward_headers self c))"
proof -
  let ?h0 = "[('':method'', request_method c), ('':scheme'', ''http''), ('':path'', path c),
              ('':version'', ''HTTP/1.1''), ('':host'', host c)]"
  let ?h1 = "(case (username self, password self) of
                  (Some u, Some p) \<Rightarrow>
                    if u \<noteq> [] \<and> p \<noteq> []
                    then AList.update ''proxy-authorization''
                           (''Basic '' @ strip (b64encode (u @ '':'' @ p)) @ CRLF) ?h0
                    else ?h0
                | _ \<Rightarrow> ?h0)"
  have d0: "distinct (map fst ?h0)" by simp
  have d1: "distinct (map fst ?h1)"
    using d0 by (auto simp: distinct_update split: option.splits simp del: update.simps)
  have m0: "map_of ?h0 = [('':method'') \<mapsto> request_method c, ('':scheme'') \<mapsto> ''http'',
      ('':path'') \<mapsto> path c, ('':version'') \<mapsto> ''HTTP/1.1'', ('':host'') \<mapsto> host c]"
    by (rule ext) simp
  have m1: "map_of ?h1 = map_of ?h0 ++ (case (username self, password self) of
           (Some u, Some p) \<Rightarrow>
             if u \<noteq> [] \<and> p \<noteq> []
             then [''proxy-authorization'' \<mapsto> ''Basic '' @ b64encode (u @ '':'' @ p) @ CRLF]
             else Map.empty
         | _ \<Rightarrow> Map.empty)"
    by (rule ext)
      (simp add: update_conv' strip_b64encode map_add_def split: option.splits
        del: update.simps)
  have "do_forward_headers self c = foldl (\<lambda>h (k, v). AList.update (lower k) v h) ?h1 (headers c)"
    by (simp add: do_forward_headers_def Let_def)
  then show ?thesis
    by (simp only: map_of_foldl_update m1 m0 distinct_foldl_update [OF d1] simp_thms)
qed

text \<open>
  C7, as amended. The headers \<open>do_forward\<close> opens a stream with are: the five reserved
  names, \<open>:method\<close>, \<open>:path\<close> and \<open>:host\<close> from the parsed request, \<open>:scheme\<close> always
  \<open>http\<close> and \<open>:version\<close> always \<open>HTTP/1.1\<close>; when user name and password are both set and
  not empty, \<open>proxy-authorization\<close> with a value that starts with \<open>Basic\<close>, a space and the
  base64 text of \<open>username:password\<close>; and over these every header of the request under its
  lower-cased name, a later one replacing an entry of the same name. The keys are distinct.
\<close>

theorem do_forward_headers_map:
  "\<exists>tail. map_of (do_forward_headers self c) =
     [('':method'') \<mapsto> request_method c, ('':scheme'') \<mapsto> ''http'', ('':path'') \<mapsto> path c,
      ('':version'') \<mapsto> ''HTTP/1.1'', ('':host'') \<mapsto> host c]
     ++ (case (username self, password self) of
           (Some u, Some p) \<Rightarrow>
             if u \<noteq> [] \<and> p \<noteq> []
             then [''proxy-authorization'' \<mapsto> ''Basic '' @ b64encode (u @ '':'' @ p) @ tail]
             else Map.empty
         | _ \<Rightarrow> Map.empty)
     ++ map_of (rev (map (\<lambda>(k, v). (lower k, v)) (headers c)))
   \<and> distinct (map fst (do_forward_headers self c))"
  using do_forward_headers_exact [of self c] by (intro exI [of _ CRLF])

text \<open>
  C7, the claim as stated fails. With user name \<open>u\<close> and password \<open>p\<close> configured and a
  request that has a \<open>Proxy-Authorization\<close> header of its own, the header sent is the one of
  the request, which does not start with \<open>Basic dTpw\<close>.
\<close>

theorem do_forward_headers_counterexample:
  "map_of (do_forward_headers (SpdyRelayProxy ''10.0.0.1'' 443 (Some ''u'') (Some ''p'') False)
       \<lparr>request_method = ''GET'', path = ''/'', host = ''example.com'',
        headers = [(''Proxy-Authorization'', ''Basic eDp5'')],
        forward_started = False, downstream_sock = [], fall_back_reasons = []\<rparr>)
     ''proxy-authorization'' = Some ''Basic eDp5''
   \<and> \<not> startswith ''Basic eDp5'' (''Basic '' @ b64encode ''u:p'')"
  by (simp add: do_forward_headers_def SpdyRelayProxy_def b64encode_def b64_char_def
      b64_alphabet_def strip_def isspace_def CRLF_def lower_def lower_char_def startswith_def)

end
